theory Spec2Isabelle
  imports Main "HOL-Library.Word" "HOL-Library.Log_Nat"
begin

unbundle bit_operations_syntax

section \<open>The DLPC350 session and its transport\<close>

text \<open>
  The model follows \<^verbatim>\<open>src/dlpc350.py\<close>. Python integers are \<^typ>\<open>int\<close>;
  a packet and a transport response are lists of integers. The session object is a
  record that every method takes and returns. The transport (\<^verbatim>\<open>self.dlp_hid\<close>) is
  part of that record: \<open>written\<close> is the log of the buffers handed to
  \<^verbatim>\<open>write\<close>, oldest first; \<open>responses k\<close> is what the device answers to the
  \<open>k\<close>-th \<^verbatim>\<open>read\<close>, and \<open>nread\<close> counts the reads made so far. Text printed
  on the console (the debug dumps and the warnings) is not part of the model.
\<close>

datatype error = IndexError | OverflowError | SettingsError string

record dlpc350 =
  debug :: int
  dryrun :: int
  seqN :: int
  connected :: int
  status :: "string \<rightharpoonup> int"
  exposureTime :: "int list option"
  framePeriod :: "int list option"
  written :: "int list list"
  responses :: "nat \<Rightarrow> int list"
  nread :: nat

text \<open>The constructor \<^verbatim>\<open>__init__\<close>, given the script of the transport.\<close>

definition init :: "int \<Rightarrow> int \<Rightarrow> (nat \<Rightarrow> int list) \<Rightarrow> dlpc350" where
  "init dbg dry rs =
     \<lparr>debug = dbg, dryrun = dry, seqN = 1, connected = 0,
      status = [''hardware'' \<mapsto> 0, ''system'' \<mapsto> 0, ''main'' \<mapsto> 0, ''displaymode'' \<mapsto> 0,
                ''inputsource'' \<mapsto> 0, ''ledRed'' \<mapsto> 0, ''ledGreen'' \<mapsto> 0, ''ledBlue'' \<mapsto> 0],
      exposureTime = None, framePeriod = None,
      written = [], responses = rs, nread = 0\<rparr>"

text \<open>The test transport of \<^verbatim>\<open>src/fakehid.py\<close> answers every read with zeros.\<close>

definition fakehid :: "nat \<Rightarrow> int list" where
  "fakehid k = replicate 64 0"

definition hid_write :: "int list \<Rightarrow> dlpc350 \<Rightarrow> dlpc350" where
  "hid_write buff s = s\<lparr>written := written s @ [buff]\<rparr>"

definition hid_read :: "nat \<Rightarrow> dlpc350 \<Rightarrow> int list \<times> dlpc350" where
  "hid_read max_length s = (take max_length (responses s (nread s)), s\<lparr>nread := nread s + 1\<rparr>)"

text \<open>Python's \<^verbatim>\<open>b[i]\<close> for an index \<open>i \<ge> 0\<close>: out of range raises IndexError.\<close>

definition getitem :: "'a list \<Rightarrow> nat \<Rightarrow> error + 'a" where
  "getitem xs i = (if i < length xs then Inr (xs ! i) else Inl IndexError)"

text \<open>Python's slice \<^verbatim>\<open>d[i:j]\<close> for \<open>0 \<le> i \<le> j\<close>: it never raises.\<close>

definition slice :: "'a list \<Rightarrow> nat \<Rightarrow> nat \<Rightarrow> 'a list" where
  "slice xs i j = take (j - i) (drop i xs)"

section \<open>Packet codec\<close>

text \<open>\<^verbatim>\<open>_int2bytesLSB_\<close> and \<^verbatim>\<open>_bytes2intLSB_\<close>.\<close>

definition int2bytesLSB :: "int \<Rightarrow> int list" where
  "int2bytesLSB n = rev (map (\<lambda>i. drop_bit i n AND 0xff) [24, 16, 8, 0])"

fun bytes2intLSB_loop :: "int list \<Rightarrow> nat list \<Rightarrow> int \<Rightarrow> error + int" where
  "bytes2intLSB_loop b [] r = Inr r"
| "bytes2intLSB_loop b (i # is) r =
     (case getitem b i of
        Inl e \<Rightarrow> Inl e
      | Inr x \<Rightarrow> bytes2intLSB_loop b is (r OR push_bit (i * 8) x))"

definition bytes2intLSB :: "int list \<Rightarrow> error + int" where
  "bytes2intLSB b = bytes2intLSB_loop b [0, 1, 2, 3] 0"

definition buildPacket ::
  "int \<Rightarrow> int \<Rightarrow> int list \<Rightarrow> int \<Rightarrow> int \<Rightarrow> int \<Rightarrow> dlpc350 \<Rightarrow> int list \<times> dlpc350" where
  "buildPacket cmd2 cmd3 data readonly reply seq s =
     (let reportID = 0x00;
          flagsByte = (0 OR push_bit 7 readonly) OR push_bit 6 reply;
          (sequenceNumber, s') =
             (if seq = 0 then (0x00, s) else (seqN s AND 0xFF, s\<lparr>seqN := seqN s + 1\<rparr>));
          packetLength = 2 + int (length data);
          packetLengthMSB = drop_bit 8 packetLength;
          packetLengthLSB = packetLength AND 0x00FF
      in ([reportID, flagsByte, sequenceNumber, packetLengthLSB, packetLengthMSB, cmd3, cmd2]
            @ data, s'))"

section \<open>Commands\<close>

definition getImageLoadTiming :: "int \<Rightarrow> int \<Rightarrow> dlpc350 \<Rightarrow> (error + int) \<times> dlpc350" where
  "getImageLoadTiming startingIndex imageNumber s =
     (let (pkt, s1) = buildPacket 0x1A 0x3A [startingIndex, imageNumber] 0 1 0 s;
          s2 = hid_write pkt s1;
          (d, s3) = hid_read 8 s2
      in (case bytes2intLSB (slice d 4 7) of
            Inl e \<Rightarrow> (Inl e, s3)
          | Inr t \<Rightarrow> (Inr (t div 18667), s3)))"

definition startValidation :: "dlpc350 \<Rightarrow> int \<times> dlpc350" where
  "startValidation s =
     (let (pkt, s1) = buildPacket 0x1A 0x1A [0x00] 0 0 0 s;
          s2 = hid_write pkt s1
      in (1, s2))"

definition getValidationData :: "dlpc350 \<Rightarrow> (error + int) \<times> dlpc350" where
  "getValidationData s =
     (let (pkt, s1) = buildPacket 0x1A 0x1A [] 1 1 0 s;
          s2 = hid_write pkt s1;
          (d, s3) = hid_read 5 s2
      in (getitem d 4, s3))"

definition setPatternTriggerMode :: "int \<Rightarrow> dlpc350 \<Rightarrow> int \<times> dlpc350" where
  "setPatternTriggerMode mode s =
     (if mode > 4 then (- 1, s)
      else let (pkt, s1) = buildPacket 0x1A 0x23 [mode] 0 0 1 s;
               s2 = hid_write pkt s1
           in (1, s2))"

definition setPatternInputSource :: "int \<Rightarrow> dlpc350 \<Rightarrow> int \<times> dlpc350" where
  "setPatternInputSource source s =
     (if source \<notin> set [0, 3] then (- 1, s)
      else let (pkt, s1) = buildPacket 0x1A 0x22 [source] 0 0 1 s;
               s2 = hid_write pkt s1
           in (1, s2))"

definition setPatternExposureTime :: "int \<Rightarrow> int \<Rightarrow> dlpc350 \<Rightarrow> int \<times> dlpc350" where
  "setPatternExposureTime expTime longerFramePeriod s =
     (let s1 = s\<lparr>exposureTime := Some (int2bytesLSB expTime)\<rparr>;
          fp = (if longerFramePeriod = 1 then expTime + 230 else expTime);
          s2 = s1\<lparr>framePeriod := Some (int2bytesLSB fp)\<rparr>;
          (pkt, s3) = buildPacket 0x1A 0x29 (int2bytesLSB expTime @ int2bytesLSB fp) 0 0 1 s2;
          s4 = hid_write pkt s3
      in (1, s4))"

definition LUTControl :: "int \<Rightarrow> int \<Rightarrow> int \<Rightarrow> int \<Rightarrow> dlpc350 \<Rightarrow> int \<times> dlpc350" where
  "LUTControl lutEntries repeat nrOfPattern flashImages s =
     (let (pkt, s1) = buildPacket 0x1A 0x31
                        [(lutEntries - 1) AND 0x7F, repeat AND 0x01,
                         nrOfPattern - 1, (flashImages - 1) AND 0x3F] 0 0 1 s;
          s2 = hid_write pkt s1
      in (1, s2))"

definition setLUTOffsetPointer :: "int \<Rightarrow> dlpc350 \<Rightarrow> int \<times> dlpc350" where
  "setLUTOffsetPointer offset s =
     (let (pkt, s1) = buildPacket 0x1A 0x32 [offset AND 0xFF] 0 0 1 s;
          s2 = hid_write pkt s1
      in (1, s2))"

definition openMailbox :: "int \<Rightarrow> dlpc350 \<Rightarrow> int \<times> dlpc350" where
  "openMailbox function s =
     (if function \<notin> set [1, 2, 3] then (- 1, s)
      else let (pkt, s1) = buildPacket 0x1A 0x33 [function AND 0x03] 0 0 1 s;
               s2 = hid_write pkt s1
           in (1, s2))"

definition closeMailboxes :: "dlpc350 \<Rightarrow> int \<times> dlpc350" where
  "closeMailboxes s =
     (let (pkt, s1) = buildPacket 0x1A 0x33 [0x00] 0 0 1 s;
          s2 = hid_write pkt s1
      in (1, s2))"

definition setFlashImageIndexes :: "int list \<Rightarrow> dlpc350 \<Rightarrow> int \<times> dlpc350" where
  "setFlashImageIndexes indexes s =
     (let (pkt, s1) = buildPacket 0x1A 0x34 indexes 0 0 1 s;
          s2 = hid_write pkt s1
      in (1, s2))"

definition fillPatternData :: "int list \<Rightarrow> dlpc350 \<Rightarrow> int \<times> dlpc350" where
  "fillPatternData data s =
     (let (pkt, s1) = buildPacket 0x1A 0x34 data 0 0 1 s;
          s2 = hid_write pkt s1
      in (1, s2))"

text \<open>
  \<^verbatim>\<open>getLEDCurrent\<close> stores each channel as soon as it has read it, so a short
  response leaves the earlier channels stored when the IndexError is raised.
\<close>

definition getLEDCurrent :: "dlpc350 \<Rightarrow> (error + int list) \<times> dlpc350" where
  "getLEDCurrent s =
     (let (pkt, s1) = buildPacket 0x0B 0x01 [] 1 1 0 s;
          s2 = hid_write pkt s1;
          (d, s3) = hid_read 7 s2
      in (case getitem d 4 of
            Inl e \<Rightarrow> (Inl e, s3)
          | Inr d4 \<Rightarrow>
             (let s4 = s3\<lparr>status := (status s3)(''ledRed'' \<mapsto> 255 - d4)\<rparr>
              in (case getitem d 5 of
                    Inl e \<Rightarrow> (Inl e, s4)
                  | Inr d5 \<Rightarrow>
                     (let s5 = s4\<lparr>status := (status s4)(''ledGreen'' \<mapsto> 255 - d5)\<rparr>
                      in (case getitem d 6 of
                            Inl e \<Rightarrow> (Inl e, s5)
                          | Inr d6 \<Rightarrow>
                             (let s6 = s5\<lparr>status := (status s5)(''ledBlue'' \<mapsto> 255 - d6)\<rparr>
                              in (Inr (slice d 4 6), s6))))))))"

section \<open>The LED current guard\<close>

text \<open>
  \<^verbatim>\<open>checkLedCurrent\<close> computes in Python floats, which are IEEE-754 binary64
  numbers. A finite double is modelled by the rational number it denotes, and every
  floating-point operation by the exact operation followed by \<open>fl\<close>, rounding to the
  nearest number with a 53-bit significand, ties to the even significand. The exponent
  range is not bounded in \<open>fl\<close>: the one place where Python checks it is the conversion
  of an integer operand to a float, which raises OverflowError when the rounded value
  reaches \<open>2 ^ 1024\<close>, that is when its binary exponent is 1024 or more.
  Once the three operands have passed the range check and the conversion, every
  product and sum of \<^verbatim>\<open>checkLedCurrent\<close> is below \<open>2 ^ 1024\<close> in size and is
  either 0 or far above the subnormal range, so \<open>fl\<close> is the rounding the hardware
  performs.

  \<open>pow2 e\<close> is \<open>2\<close> to the power \<open>e\<close>; \<open>exponent2 x\<close>, for \<open>x > 0\<close>, is the
  \<open>e\<close> with \<open>pow2 e \<le> x < pow2 (e + 1)\<close>.
\<close>

definition pow2 :: "int \<Rightarrow> rat" where
  "pow2 e = (if 0 \<le> e then 2 ^ nat e else 1 / 2 ^ nat (- e))"

definition exponent2 :: "rat \<Rightarrow> int" where
  "exponent2 x = (if 1 \<le> x then bitlen \<lfloor>x\<rfloor> - 1 else - bitlen (\<lceil>1 / x\<rceil> - 1))"

definition round_half_even :: "rat \<Rightarrow> int" where
  "round_half_even x =
     (let f = \<lfloor>x\<rfloor>; d = x - of_int f
      in if d < 1 / 2 then f else if 1 / 2 < d then f + 1 else if even f then f else f + 1)"

definition fl :: "rat \<Rightarrow> rat" where
  "fl x = (if x = 0 then 0
           else let u = pow2 (exponent2 \<bar>x\<bar> - 52) in of_int (round_half_even (x / u)) * u)"

definition float_of_int :: "int \<Rightarrow> error + rat" where
  "float_of_int n =
     (let x = fl (of_int n)
      in if x \<noteq> 0 \<and> 1024 \<le> exponent2 \<bar>x\<bar> then Inl OverflowError else Inr x)"

text \<open>
  \<^verbatim>\<open>(r * 0.0069) + (g * 0.0071) + (b * 0.0063) + 0.9611\<close>, evaluated left to right;
  each literal is the double nearest to the decimal written.
\<close>

definition totalCurrent :: "int \<Rightarrow> int \<Rightarrow> int \<Rightarrow> error + rat" where
  "totalCurrent r g b =
     (case float_of_int r of
        Inl e \<Rightarrow> Inl e
      | Inr fr \<Rightarrow>
         (let p1 = fl (fr * fl (69 / 10000))
          in (case float_of_int g of
                Inl e \<Rightarrow> Inl e
              | Inr fg \<Rightarrow>
                 (let p2 = fl (fg * fl (71 / 10000));
                      s1 = fl (p1 + p2)
                  in (case float_of_int b of
                        Inl e \<Rightarrow> Inl e
                      | Inr fb \<Rightarrow>
                         (let p3 = fl (fb * fl (63 / 10000));
                              s2 = fl (s1 + p3)
                          in Inr (fl (s2 + fl (9611 / 10000)))))))))"

definition checkLedCurrent ::
  "int \<Rightarrow> int \<Rightarrow> int \<Rightarrow> int \<Rightarrow> dlpc350 \<Rightarrow> (error + int) \<times> dlpc350" where
  "checkLedCurrent r g b lcrafterChk s =
     (if r > 255 \<or> g > 255 \<or> b > 255 then (Inr 0, s)
      else (case totalCurrent r g b of
              Inl e \<Rightarrow> (Inl e, s)
            | Inr totalCur \<Rightarrow>
               (if lcrafterChk \<noteq> 0 \<and> totalCur > fl (42 / 10) then (Inr 0, s)
                else (Inr 1, s))))"

definition setLEDCurrent :: "int \<Rightarrow> int \<Rightarrow> int \<Rightarrow> dlpc350 \<Rightarrow> (error + int) \<times> dlpc350" where
  "setLEDCurrent r g b s =
     (case checkLedCurrent r g b 1 s of
        (Inl e, s0) \<Rightarrow> (Inl e, s0)
      | (Inr ok, s0) \<Rightarrow>
         (if ok = 1
          then let currents = [255 - r, 255 - g, 255 - b];
                   (pkt, s1) = buildPacket 0x0B 0x01 currents 0 0 0 s0;
                   s2 = hid_write pkt s1
               in (Inr 1, s2)
          else (Inr 1, s0)))"

section \<open>Higher-level commands\<close>

text \<open>
  The polling loop of \<^verbatim>\<open>validateSequence\<close> has no bound: against a device that
  keeps bit 7 set it never returns, which is the value \<open>None\<close> here.
\<close>

partial_function (option) validateSequence_loop ::
  "int \<Rightarrow> dlpc350 \<Rightarrow> ((error + int) \<times> dlpc350) option" where
  "validateSequence_loop d s =
     (if drop_bit 7 d = 1
      then (case getValidationData s of
              (Inl e, s') \<Rightarrow> Some (Inl e, s')
            | (Inr d', s') \<Rightarrow> validateSequence_loop d' s')
      else Some (Inr d, s))"

definition validateSequence :: "dlpc350 \<Rightarrow> ((error + int) \<times> dlpc350) option" where
  "validateSequence s =
     (let (_, s1) = startValidation s
      in (case getValidationData s1 of
            (Inl e, s2) \<Rightarrow> Some (Inl e, s2)
          | (Inr d, s2) \<Rightarrow> validateSequence_loop d s2))"

definition sendPatternSequence ::
  "int list \<Rightarrow> int list \<Rightarrow> int \<Rightarrow> int \<Rightarrow> int \<Rightarrow> dlpc350 \<Rightarrow> (error + unit) \<times> dlpc350" where
  "sendPatternSequence sequence flashIndexes displayTime triggerMode repeat s =
     (let nrOfLUTEntries = int (length sequence) div 3;
          nrOfFlashImages = int (length flashIndexes)
      in if int (length sequence) mod 3 \<noteq> 0 \<or> nrOfLUTEntries = 0
         then (Inl (SettingsError ''Invalid pattern sequence!''), s)
         else if nrOfFlashImages = 0 \<or> nrOfFlashImages > nrOfLUTEntries
         then (Inl (SettingsError ''Invalid number of Flash images!''), s)
         else let (_, s1) = setPatternInputSource 3 s;
                  (_, s2) = LUTControl nrOfLUTEntries repeat nrOfLUTEntries nrOfFlashImages s1;
                  (_, s3) = setPatternExposureTime displayTime 0 s2;
                  (_, s4) = setPatternTriggerMode triggerMode s3;
                  (_, s5) = openMailbox 2 s4;
                  (_, s6) = setLUTOffsetPointer 0 s5;
                  (_, s7) = fillPatternData sequence s6;
                  (_, s8) = closeMailboxes s7;
                  (_, s9) = openMailbox 1 s8;
                  (_, s10) = setLUTOffsetPointer 0 s9;
                  (_, s11) = setFlashImageIndexes flashIndexes s10;
                  (_, s12) = closeMailboxes s11
              in (Inr (), s12))"

text \<open>
  A response to \<^verbatim>\<open>getValidationData\<close> whose data byte (offset 4) is a byte with
  bit 7 set, respectively clear.
\<close>

definition validation_busy :: "int list \<Rightarrow> bool" where
  "validation_busy d \<longleftrightarrow> 5 \<le> length d \<and> 0 \<le> d ! 4 \<and> d ! 4 < 256 \<and> bit (d ! 4) 7"

definition validation_done :: "int list \<Rightarrow> bool" where
  "validation_done d \<longleftrightarrow> 5 \<le> length d \<and> 0 \<le> d ! 4 \<and> d ! 4 < 256 \<and> \<not> bit (d ! 4) 7"

section \<open>Reading a packet back\<close>

text \<open>
  The wire layout as the specification words it: byte 1 carries the read-only flag in
  bit 7 and the reply flag in bit 6, byte 5 is cmd3, byte 6 is cmd2 and the payload
  starts at byte 7. \<open>decodePacket\<close> reads these positions; it is not part of the
  source, which only ever encodes.
\<close>

record packet_fields =
  pf_cmd2 :: int
  pf_cmd3 :: int
  pf_payload :: "int list"
  pf_readonly :: int
  pf_reply :: int
  pf_length :: int

definition decodePacket :: "int list \<Rightarrow> packet_fields option" where
  "decodePacket pkt =
     (if length pkt < 7 then None
      else Some \<lparr>pf_cmd2 = pkt ! 6, pf_cmd3 = pkt ! 5, pf_payload = drop 7 pkt,
                 pf_readonly = drop_bit 7 (pkt ! 1) AND 1,
                 pf_reply = drop_bit 6 (pkt ! 1) AND 1,
                 pf_length = pkt ! 3 + 256 * pkt ! 4\<rparr>)"

text \<open>
  The frame of a write command (both flags clear) that carries sequence counter
  value \<open>sq\<close>, again in the words of the layout.
\<close>

definition frame :: "int \<Rightarrow> int \<Rightarrow> int \<Rightarrow> int list \<Rightarrow> int list" where
  "frame sq cmd2 cmd3 payload =
     [0, 0, sq mod 256, (int (length payload) + 2) mod 256, (int (length payload) + 2) div 256,
      cmd3, cmd2] @ payload"

text \<open>
  A run of consecutive \<^verbatim>\<open>buildPacket\<close> calls: each element gives the arguments
  \<open>(cmd2, cmd3, data, readonly, reply, seq)\<close> of one call; the result is the list of
  packets built, in order, and the session afterwards.
\<close>

type_synonym call = "int \<times> int \<times> int list \<times> int \<times> int \<times> int"

fun call_seq :: "call \<Rightarrow> int" where
  "call_seq (cmd2, cmd3, data, readonly, reply, seq) = seq"

fun buildPackets :: "call list \<Rightarrow> dlpc350 \<Rightarrow> int list list \<times> dlpc350" where
  "buildPackets [] s = ([], s)"
| "buildPackets ((cmd2, cmd3, data, readonly, reply, seq) # cs) s =
     (let (pkt, s1) = buildPacket cmd2 cmd3 data readonly reply seq s;
          (pkts, s2) = buildPackets cs s1
      in (pkt # pkts, s2))"

section \<open>The guard's arithmetic on integers\<close>

text \<open>
  The same arithmetic on integers, for the proofs about the guard. A double with a
  53-bit significand is \<open>n / 2 ^ k\<close> for an integer \<open>n\<close>; \<open>rnd53 n\<close> rounds
  \<open>n\<close> to 53 significant bits, ties to even, so that
  \<open>fl (n / 2 ^ k) = rnd53 n / 2 ^ k\<close>. \<open>rnd53c\<close> is \<open>rnd53\<close> below \<open>2 ^ 63\<close>
  with the bit length found by comparisons, and \<open>total_scaled r g b\<close> is the total
  current times \<open>2 ^ 60\<close>. \<open>boundary_row r\<close> checks every triple \<open>(r, g, b)\<close> of
  bytes whose exact total \<open>0.0069 r + 0.0071 g + 0.0063 b + 0.9611\<close> is 4.2: there
  \<open>69 r + 71 g + 63 b = 32389\<close>, so \<open>g\<close> is congruent to \<open>56 - 48 r\<close> modulo 63.
\<close>

definition rne :: "int \<Rightarrow> nat \<Rightarrow> int" where
  "rne n sh =
     (let q = n div 2 ^ sh; r = n mod 2 ^ sh
      in if 2 * r < 2 ^ sh then q else if 2 ^ sh < 2 * r then q + 1
         else if even q then q else q + 1)"

definition rnd53 :: "int \<Rightarrow> int" where
  "rnd53 n = (if bitlen n \<le> 53 then n
              else rne n (nat (bitlen n - 53)) * 2 ^ nat (bitlen n - 53))"

definition rne_by :: "int \<Rightarrow> int \<Rightarrow> int" where
  "rne_by n d =
     (let q = n div d; r = n mod d
      in (if 2 * r < d then q else if d < 2 * r then q + 1
          else if even q then q else q + 1) * d)"

definition rnd53c :: "int \<Rightarrow> int" where
  "rnd53c n =
     (if n < 288230376151711744
       then (if n < 36028797018963968
         then (if n < 18014398509481984
           then (if n < 9007199254740992
             then n
             else rne_by n 2)
           else rne_by n 4)
         else (if n < 144115188075855872
           then (if n < 72057594037927936
             then rne_by n 8
             else rne_by n 16)
           else rne_by n 32))
       else (if n < 2305843009213693952
         then (if n < 1152921504606846976
           then (if n < 576460752303423488
             then rne_by n 64
             else rne_by n 128)
           else rne_by n 256)
         else (if n < 4611686018427387904
           then rne_by n 512
           else rne_by n 1024)))"

definition total_scaled :: "int \<Rightarrow> int \<Rightarrow> int \<Rightarrow> int" where
  "total_scaled r g b =
     rnd53c (rnd53c (rnd53c (rnd53c (r * 7955158381787244) + rnd53c (g * 8185742682708614))
                     + rnd53c (b * 7263405479023136))
             + 1108072858077640576)"

definition boundary_ok :: "int \<Rightarrow> int \<Rightarrow> bool" where
  "boundary_ok r g =
     (let n = 32389 - 69 * r - 71 * g
      in if g \<le> 255 \<and> 0 \<le> n \<and> n mod 63 = 0 \<and> n div 63 \<le> 255
         then total_scaled r g (n div 63) \<le> 4842270319348757504 else True)"

definition boundary_row :: "int \<Rightarrow> bool" where
  "boundary_row r =
     list_all (\<lambda>j. boundary_ok r ((56 - 48 * r) mod 63 + 63 * j)) [0, 1, 2, 3, 4]"

section \<open>Facts about the codec\<close>

lemma and_255_mod: "(x::int) AND 255 = x mod 256"
  using take_bit_eq_mask[of 8 x] by (simp add: take_bit_eq_mod mask_eq_exp_minus_1)

lemma drop_bit_8_div: "drop_bit 8 (x::int) = x div 256"
  by (simp add: drop_bit_eq_div)

lemma buildPacket_noseq:
  "buildPacket cmd2 cmd3 data readonly reply 0 s =
     ([0, push_bit 7 readonly OR push_bit 6 reply, 0, (int (length data) + 2) mod 256,
       (int (length data) + 2) div 256, cmd3, cmd2] @ data, s)"
  by (simp add: buildPacket_def Let_def and_255_mod drop_bit_8_div add.commute)

lemma buildPacket_seq:
  "seq \<noteq> 0 \<Longrightarrow> buildPacket cmd2 cmd3 data readonly reply seq s =
     ([0, push_bit 7 readonly OR push_bit 6 reply, seqN s mod 256, (int (length data) + 2) mod 256,
       (int (length data) + 2) div 256, cmd3, cmd2] @ data, s\<lparr>seqN := seqN s + 1\<rparr>)"
  by (simp add: buildPacket_def Let_def and_255_mod drop_bit_8_div add.commute)

lemma buildPacket_write:
  "buildPacket cmd2 cmd3 data 0 0 1 s = (frame (seqN s) cmd2 cmd3 data, s\<lparr>seqN := seqN s + 1\<rparr>)"
  by (simp add: buildPacket_seq frame_def)

lemma bytes2intLSB_short: "length b < 4 \<Longrightarrow> bytes2intLSB b = Inl IndexError"
  by (auto simp: bytes2intLSB_def getitem_def)

section \<open>Image load timing\<close>

text \<open>
  Claim C1. The claim has \<^verbatim>\<open>getImageLoadTiming\<close> return 8 when bytes 4 to 6 of the
  response are 0x00, 0x49, 0x02. The code hands the three-element slice
  \<^verbatim>\<open>d[4:7]\<close> to \<^verbatim>\<open>_bytes2intLSB_\<close>, whose loop reads indexes 0 to 3: whatever
  the device answers, the call writes its request, reads once and raises IndexError,
  and no value is returned.
\<close>

theorem getImageLoadTiming_raises:
  "getImageLoadTiming startingIndex imageNumber s =
     (Inl IndexError,
      s\<lparr>written := written s @ [[0, 64, 0, 4, 0, 0x3A, 0x1A, startingIndex, imageNumber]],
        nread := nread s + 1\<rparr>)"
  by (simp add: getImageLoadTiming_def buildPacket_noseq hid_write_def hid_read_def
      bytes2intLSB_short slice_def)

section \<open>Shape checks of the pattern-sequence upload\<close>

text \<open>
  Claim C3. When the sequence's length is not a nonzero multiple of 3, or the number of
  flash indexes is 0 or exceeds the number of LUT entries (the length divided by 3),
  \<^verbatim>\<open>sendPatternSequence\<close> raises SettingsError and the session, with its
  transport log, is as it was: nothing has been written. The witness covers the two
  cases the specification names: a sequence of length 4, and 2 LUT entries with 3 flash
  indexes.
\<close>

theorem sendPatternSequence_rejects:
  assumes "length sequence mod 3 \<noteq> 0 \<or> length sequence = 0
           \<or> length flashIndexes = 0 \<or> length flashIndexes > length sequence div 3"
  shows "sendPatternSequence sequence flashIndexes displayTime triggerMode repeat s =
           (Inl (SettingsError
              (if length sequence mod 3 \<noteq> 0 \<or> length sequence = 0
               then ''Invalid pattern sequence!'' else ''Invalid number of Flash images!'')), s)"
proof -
  have m: "int (length sequence) mod 3 = int (length sequence mod 3)"
    by (simp add: zmod_int)
  have d: "int (length sequence) div 3 = int (length sequence div 3)"
    by (simp add: zdiv_int)
  show ?thesis
    using assms unfolding sendPatternSequence_def Let_def m d
    by auto
qed

theorem sendPatternSequence_rejects_witness:
  "sendPatternSequence [0, 0x21, 0x06, 0] [8] 100000 1 0 (init 0 1 fakehid) =
     (Inl (SettingsError ''Invalid pattern sequence!''), init 0 1 fakehid)
   \<and> sendPatternSequence [0, 0x21, 0x06, 1, 0x21, 0x06] [8, 9, 10] 100000 1 0 (init 0 1 fakehid) =
     (Inl (SettingsError ''Invalid number of Flash images!''), init 0 1 fakehid)"
  using sendPatternSequence_rejects [of "[0, 0x21, 0x06, 0]" "[8]" 100000 1 0 "init 0 1 fakehid"]
    sendPatternSequence_rejects [of "[0, 0x21, 0x06, 1, 0x21, 0x06]" "[8, 9, 10]" 100000 1 0
      "init 0 1 fakehid"]
  by simp

section \<open>Wire layout\<close>

lemma flag_bits:
  assumes "readonly \<in> {0, 1}" "reply \<in> {0, (1::int)}"
  shows "push_bit 7 readonly OR push_bit 6 reply = 128 * readonly + 64 * reply"
  using assms by auto

text \<open>
  Claim C5. For flag arguments that are bits, the packet built has 0 in byte 0, the
  read-only flag in bit 7 and the reply flag in bit 6 of byte 1 (and no other bit),
  the payload length plus 2 split into its low byte and the rest in bytes 3 and 4,
  cmd3 in byte 5, cmd2 in byte 6 and the payload from byte 7 on; reading these
  positions back gives cmd2, cmd3, the payload and both flags. This holds whether or
  not a sequence number is asked for. Byte 4 is the whole quotient by 256: the code
  does not mask it.
\<close>

theorem buildPacket_layout:
  assumes "readonly \<in> {0, 1}" and "reply \<in> {0, 1}"
  shows "let pkt = fst (buildPacket cmd2 cmd3 data readonly reply seq s)
         in pkt ! 0 = 0
          \<and> pkt ! 1 = 128 * readonly + 64 * reply
          \<and> (bit (pkt ! 1) 7 \<longleftrightarrow> readonly = 1) \<and> (bit (pkt ! 1) 6 \<longleftrightarrow> reply = 1)
          \<and> pkt ! 3 = (int (length data) + 2) mod 256
          \<and> pkt ! 4 = (int (length data) + 2) div 256
          \<and> pkt ! 5 = cmd3 \<and> pkt ! 6 = cmd2 \<and> drop 7 pkt = data
          \<and> decodePacket pkt =
              Some \<lparr>pf_cmd2 = cmd2, pf_cmd3 = cmd3, pf_payload = data,
                    pf_readonly = readonly, pf_reply = reply,
                    pf_length = int (length data) + 2\<rparr>"
proof -
  have f: "push_bit 7 readonly OR push_bit 6 reply = 128 * readonly + 64 * reply"
    using assms by (rule flag_bits)
  have b: "bit (128 * readonly + 64 * reply) 7 \<longleftrightarrow> readonly = 1"
       "bit (128 * readonly + 64 * reply) 6 \<longleftrightarrow> reply = 1"
       "drop_bit 7 (128 * readonly + 64 * reply) AND 1 = readonly"
       "drop_bit 6 (128 * readonly + 64 * reply) AND 1 = reply"
    using assms by (auto simp: bit_iff_odd drop_bit_eq_div)
  show ?thesis
  proof (cases "seq = 0")
    case True
    then show ?thesis
      by (simp add: buildPacket_noseq f b decodePacket_def)
  next
    case False
    then show ?thesis
      by (simp add: buildPacket_seq f b decodePacket_def)
  qed
qed

theorem buildPacket_layout_witness:
  "(1::int) \<in> {0, 1} \<and> (0::int) \<in> {0, 1}
   \<and> fst (buildPacket 0x1A 0x3A [5, 7] 1 0 1 (init 0 1 fakehid)) = [0, 128, 1, 4, 0, 0x3A, 0x1A, 5, 7]
   \<and> decodePacket [0, 128, 1, 4, 0, 0x3A, 0x1A, 5, 7] =
        Some \<lparr>pf_cmd2 = 0x1A, pf_cmd3 = 0x3A, pf_payload = [5, 7],
              pf_readonly = 1, pf_reply = 0, pf_length = 4\<rparr>"
  using buildPacket_layout [of 1 0 "0x1A" "0x3A" "[5, 7]" 1 "init 0 1 fakehid"]
  by (simp add: buildPacket_seq init_def)

section \<open>Sequence numbers\<close>

lemma buildPackets_seq:
  "\<forall>c \<in> set cs. call_seq c \<noteq> 0 \<Longrightarrow>
     map (\<lambda>pkt. pkt ! 2) (fst (buildPackets cs s)) =
       map (\<lambda>i. (seqN s + int i) mod 256) [0..<length cs]
     \<and> snd (buildPackets cs s) = s\<lparr>seqN := seqN s + int (length cs)\<rparr>"
proof (induction cs arbitrary: s)
  case Nil
  show ?case by simp
next
  case (Cons c cs)
  obtain cmd2 cmd3 data readonly reply seq where c: "c = (cmd2, cmd3, data, readonly, reply, seq)"
    by (cases c) auto
  from Cons.prems c have seq: "seq \<noteq> 0" by simp
  from Cons.prems have rest: "\<forall>c \<in> set cs. call_seq c \<noteq> 0" by simp
  let ?s1 = "s\<lparr>seqN := seqN s + 1\<rparr>"
  note ih = Cons.IH [OF rest, of ?s1]
  have shift: "map (\<lambda>i. (seqN s + int i) mod 256) [0..<length (c # cs)] =
       seqN s mod 256 # map (\<lambda>i. (seqN ?s1 + int i) mod 256) [0..<length cs]"
    by (simp add: upt_conv_Cons map_Suc_upt [symmetric] add.assoc del: upt_Suc)
  show ?case
    unfolding shift using ih
    by (simp add: c buildPacket_seq [OF seq] split_def Let_def add.assoc)
qed

text \<open>
  Claim C6. In a run of consecutive \<^verbatim>\<open>buildPacket\<close> calls that all ask for a
  sequence number, starting from counter value \<open>S\<close>, the sequence bytes are
  \<open>S, S + 1, \<dots>\<close> reduced modulo 256, and the counter has advanced by the number of
  calls. A call that does not ask for one emits 0 and leaves the session unchanged.
\<close>

theorem sequence_numbers:
  "((\<forall>c \<in> set cs. call_seq c \<noteq> 0) \<longrightarrow>
      map (\<lambda>pkt. pkt ! 2) (fst (buildPackets cs s)) =
        map (\<lambda>i. (seqN s + int i) mod 256) [0..<length cs]
      \<and> seqN (snd (buildPackets cs s)) = seqN s + int (length cs))
   \<and> fst (buildPacket cmd2 cmd3 data readonly reply 0 s) ! 2 = 0
   \<and> snd (buildPacket cmd2 cmd3 data readonly reply 0 s) = s"
  using buildPackets_seq [of cs s] by (simp add: buildPacket_noseq)

theorem sequence_numbers_witness:
  "map (\<lambda>pkt. pkt ! 2)
     (fst (buildPackets [(0x1A, 0x22, [3], 0, 0, 1), (0x1A, 0x33, [2], 0, 0, 1), (0x1A, 0x32, [0], 0, 0, 1)]
        ((init 0 1 fakehid)\<lparr>seqN := 255\<rparr>))) = [255, 0, 1]
   \<and> seqN (snd (buildPackets [(0x1A, 0x22, [3], 0, 0, 1), (0x1A, 0x33, [2], 0, 0, 1), (0x1A, 0x32, [0], 0, 0, 1)]
        ((init 0 1 fakehid)\<lparr>seqN := 255\<rparr>))) = 258"
  using sequence_numbers [of "[(0x1A, 0x22, [3], 0, 0, 1), (0x1A, 0x33, [2], 0, 0, 1), (0x1A, 0x32, [0], 0, 0, 1)]"
      "(init 0 1 fakehid)\<lparr>seqN := 255\<rparr>"]
  by (simp add: upt_conv_Cons)

section \<open>Setters with a guard\<close>

text \<open>
  Claim C9. \<^verbatim>\<open>setPatternTriggerMode\<close> with a mode above 4,
  \<^verbatim>\<open>setPatternInputSource\<close> with a source other than 0 and 3, and
  \<^verbatim>\<open>openMailbox\<close> with a function other than 1, 2 and 3 return the error value
  \<open>-1\<close> and leave the session as it was: no write, the sequence counter unchanged.
  Otherwise each writes exactly one frame, which carries the sequence counter, and
  advances the counter by one.
\<close>

theorem setters_guard:
  "(mode > 4 \<longrightarrow> setPatternTriggerMode mode s = (- 1, s))
   \<and> (mode \<le> 4 \<longrightarrow> setPatternTriggerMode mode s =
         (1, s\<lparr>seqN := seqN s + 1, written := written s @ [frame (seqN s) 0x1A 0x23 [mode]]\<rparr>))
   \<and> (source \<notin> {0, 3} \<longrightarrow> setPatternInputSource source s = (- 1, s))
   \<and> (source \<in> {0, 3} \<longrightarrow> setPatternInputSource source s =
         (1, s\<lparr>seqN := seqN s + 1, written := written s @ [frame (seqN s) 0x1A 0x22 [source]]\<rparr>))
   \<and> (function \<notin> {1, 2, 3} \<longrightarrow> openMailbox function s = (- 1, s))
   \<and> (function \<in> {1, 2, 3} \<longrightarrow> openMailbox function s =
         (1, s\<lparr>seqN := seqN s + 1, written := written s @ [frame (seqN s) 0x1A 0x33 [function]]\<rparr>))"
  by (auto simp: setPatternTriggerMode_def setPatternInputSource_def openMailbox_def
      buildPacket_write hid_write_def)

theorem setters_guard_witness:
  "setPatternTriggerMode 5 (init 0 1 fakehid) = (- 1, init 0 1 fakehid)
   \<and> setPatternTriggerMode 4 (init 0 1 fakehid) =
       (1, (init 0 1 fakehid)\<lparr>seqN := 2, written := [[0, 0, 1, 3, 0, 0x23, 0x1A, 4]]\<rparr>)
   \<and> setPatternInputSource 1 (init 0 1 fakehid) = (- 1, init 0 1 fakehid)
   \<and> setPatternInputSource 3 (init 0 1 fakehid) =
       (1, (init 0 1 fakehid)\<lparr>seqN := 2, written := [[0, 0, 1, 3, 0, 0x22, 0x1A, 3]]\<rparr>)
   \<and> openMailbox 0 (init 0 1 fakehid) = (- 1, init 0 1 fakehid)
   \<and> openMailbox 2 (init 0 1 fakehid) =
       (1, (init 0 1 fakehid)\<lparr>seqN := 2, written := [[0, 0, 1, 3, 0, 0x33, 0x1A, 2]]\<rparr>)"
  using setters_guard [of 5 "init 0 1 fakehid" 1 0] setters_guard [of 4 "init 0 1 fakehid" 3 2]
  by (simp add: init_def frame_def)

section \<open>LED currents\<close>

text \<open>
  Claim C10. On a 7-byte response \<open>d\<close>, \<^verbatim>\<open>getLEDCurrent\<close> stores
  \<open>255 - d[4]\<close>, \<open>255 - d[5]\<close> and \<open>255 - d[6]\<close> as the red, green and blue
  entries of the status, and returns the raw slice \<^verbatim>\<open>d[4:6]\<close>: two bytes, not
  inverted, without the blue one.
\<close>

theorem getLEDCurrent_result:
  assumes "length (responses s (nread s)) = 7"
  shows "getLEDCurrent s =
           (Inr [responses s (nread s) ! 4, responses s (nread s) ! 5],
            s\<lparr>status := (status s)(''ledRed'' \<mapsto> 255 - responses s (nread s) ! 4,
                                   ''ledGreen'' \<mapsto> 255 - responses s (nread s) ! 5,
                                   ''ledBlue'' \<mapsto> 255 - responses s (nread s) ! 6),
              written := written s @ [[0, 192, 0, 2, 0, 0x01, 0x0B]],
              nread := nread s + 1\<rparr>)"
proof -
  obtain a b c d e f g where r: "responses s (nread s) = [a, b, c, d, e, f, g]"
    using assms by (auto simp: length_Suc_conv eval_nat_numeral)
  show ?thesis
    by (simp add: getLEDCurrent_def buildPacket_noseq hid_write_def hid_read_def r
        getitem_def slice_def Let_def)
qed

theorem getLEDCurrent_result_witness:
  "getLEDCurrent (init 0 0 (\<lambda>k. [0, 0, 0, 0, 104, 135, 130])) =
     (Inr [104, 135],
      (init 0 0 (\<lambda>k. [0, 0, 0, 0, 104, 135, 130]))
        \<lparr>status := (status (init 0 0 (\<lambda>k. [0, 0, 0, 0, 104, 135, 130])))
                     (''ledRed'' \<mapsto> 151, ''ledGreen'' \<mapsto> 120, ''ledBlue'' \<mapsto> 125),
         written := [[0, 192, 0, 2, 0, 0x01, 0x0B]], nread := 1\<rparr>)"
  using getLEDCurrent_result [of "init 0 0 (\<lambda>k. [0, 0, 0, 0, 104, 135, 130])"]
  by (simp add: init_def)

section \<open>The validation handshake\<close>

lemma byte_bit7: "0 \<le> d \<Longrightarrow> d < 256 \<Longrightarrow> drop_bit 7 d = 1 \<longleftrightarrow> bit (d::int) 7"
proof -
  assume a: "0 \<le> d" "d < 256"
  have "d div 128 = 0 \<or> d div 128 = 1" using a by auto
  then show ?thesis
    by (auto simp: bit_iff_odd drop_bit_eq_div)
qed

lemma getValidationData_ok:
  "5 \<le> length (responses s (nread s)) \<Longrightarrow>
   getValidationData s =
     (Inr (responses s (nread s) ! 4),
      s\<lparr>written := written s @ [[0, 192, 0, 2, 0, 0x1A, 0x1A]], nread := nread s + 1\<rparr>)"
  by (simp add: getValidationData_def buildPacket_noseq hid_write_def hid_read_def getitem_def)

lemma startValidation_eq:
  "startValidation s = (1, s\<lparr>written := written s @ [[0, 0, 0, 3, 0, 0x1A, 0x1A, 0]]\<rparr>)"
  by (simp add: startValidation_def buildPacket_noseq hid_write_def)

lemma validateSequence_loop_done:
  "0 \<le> d \<Longrightarrow> d < 256 \<Longrightarrow> \<not> bit d 7 \<Longrightarrow> validateSequence_loop d s = Some (Inr d, s)"
  by (subst validateSequence_loop.simps) (simp add: byte_bit7)

lemma validateSequence_loop_polls:
  assumes "0 \<le> d" "d < 256" "bit d 7"
    and "\<forall>j<n. validation_busy (responses s (nread s + j))"
    and "validation_done (responses s (nread s + n))"
  shows "validateSequence_loop d s =
           Some (Inr (responses s (nread s + n) ! 4),
                 s\<lparr>written := written s @ replicate (Suc n) [0, 192, 0, 2, 0, 0x1A, 0x1A],
                   nread := nread s + Suc n\<rparr>)"
  using assms
proof (induction n arbitrary: d s)
  case 0
  then have len: "5 \<le> length (responses s (nread s))"
    and fin: "0 \<le> responses s (nread s) ! 4" "responses s (nread s) ! 4 < 256"
      "\<not> bit (responses s (nread s) ! 4) 7"
    by (simp_all add: validation_done_def)
  show ?case
    by (subst validateSequence_loop.simps)
      (simp add: byte_bit7 "0.prems"(1-3) getValidationData_ok [OF len]
        validateSequence_loop_done [OF fin])
next
  case (Suc n)
  let ?s1 = "s\<lparr>written := written s @ [[0, 192, 0, 2, 0, 0x1A, 0x1A]], nread := nread s + 1\<rparr>"
  from Suc.prems(4) have b0: "validation_busy (responses s (nread s))"
    by (metis add.right_neutral zero_less_Suc)
  then have len: "5 \<le> length (responses s (nread s))"
    and d': "0 \<le> responses s (nread s) ! 4" "responses s (nread s) ! 4 < 256"
      "bit (responses s (nread s) ! 4) 7"
    by (simp_all add: validation_busy_def)
  have busy: "\<forall>j<n. validation_busy (responses ?s1 (nread ?s1 + j))"
    using Suc.prems(4) by (auto simp: less_Suc_eq_0_disj)
  have fin: "validation_done (responses ?s1 (nread ?s1 + n))"
    using Suc.prems(5) by simp
  have step: "validateSequence_loop d s = validateSequence_loop (responses s (nread s) ! 4) ?s1"
    by (subst validateSequence_loop.simps)
      (simp add: byte_bit7 Suc.prems(1-3) getValidationData_ok [OF len])
  show ?case
    unfolding step Suc.IH [OF d' busy fin]
    by (simp add: replicate_append_same)
qed

text \<open>
  Claim C7. \<^verbatim>\<open>validateSequence\<close> writes the start-validation frame without
  reading, then polls. If the first \<open>n\<close> validation responses have bit 7 of the data
  byte set and the next one has it clear, the call returns that byte after exactly
  \<open>n + 1\<close> polls, each one write and one read, and nothing else goes over the
  transport. For the data bytes 0x81, 0x81, 0x00 this is 3 reads and the result 0x00.
\<close>

theorem validateSequence_polls:
  assumes "\<forall>j<n. validation_busy (responses s (nread s + j))"
    and "validation_done (responses s (nread s + n))"
  shows "validateSequence s =
           Some (Inr (responses s (nread s + n) ! 4),
                 s\<lparr>written := written s @ [0, 0, 0, 3, 0, 0x1A, 0x1A, 0]
                                 # replicate (Suc n) [0, 192, 0, 2, 0, 0x1A, 0x1A],
                   nread := nread s + Suc n\<rparr>)"
proof (cases n)
  case 0
  let ?s0 = "s\<lparr>written := written s @ [[0, 0, 0, 3, 0, 0x1A, 0x1A, 0]]\<rparr>"
  from assms(2) 0 have len: "5 \<le> length (responses ?s0 (nread ?s0))"
    and fin: "0 \<le> responses s (nread s) ! 4" "responses s (nread s) ! 4 < 256"
      "\<not> bit (responses s (nread s) ! 4) 7"
    by (simp_all add: validation_done_def)
  show ?thesis
    using fin
    by (simp add: validateSequence_def startValidation_eq getValidationData_ok [OF len] 0
        validateSequence_loop_done)
next
  case (Suc m)
  let ?s0 = "s\<lparr>written := written s @ [[0, 0, 0, 3, 0, 0x1A, 0x1A, 0]]\<rparr>"
  let ?s1 = "?s0\<lparr>written := written ?s0 @ [[0, 192, 0, 2, 0, 0x1A, 0x1A]], nread := nread ?s0 + 1\<rparr>"
  from assms(1) Suc have b0: "validation_busy (responses s (nread s))"
    by (metis add.right_neutral zero_less_Suc)
  then have len: "5 \<le> length (responses ?s0 (nread ?s0))"
    and d: "0 \<le> responses s (nread s) ! 4" "responses s (nread s) ! 4 < 256"
      "bit (responses s (nread s) ! 4) 7"
    by (simp_all add: validation_busy_def)
  have busy: "\<forall>j<m. validation_busy (responses ?s1 (nread ?s1 + j))"
    using assms(1) Suc by (auto simp: less_Suc_eq_0_disj)
  have fin: "validation_done (responses ?s1 (nread ?s1 + m))"
    using assms(2) Suc by simp
  have "validateSequence s = validateSequence_loop (responses s (nread s) ! 4) ?s1"
    by (simp add: validateSequence_def startValidation_eq getValidationData_ok [OF len])
  then show ?thesis
    unfolding validateSequence_loop_polls [OF d busy fin]
    by (simp add: Suc replicate_append_same)
qed

theorem validateSequence_polls_witness:
  "validateSequence (init 0 0 (\<lambda>k. if k < 2 then [0, 0, 0, 0, 0x81] else [0, 0, 0, 0, 0x00])) =
     Some (Inr 0,
           (init 0 0 (\<lambda>k. if k < 2 then [0, 0, 0, 0, 0x81] else [0, 0, 0, 0, 0x00]))
             \<lparr>written := [[0, 0, 0, 3, 0, 0x1A, 0x1A, 0], [0, 192, 0, 2, 0, 0x1A, 0x1A],
                          [0, 192, 0, 2, 0, 0x1A, 0x1A], [0, 192, 0, 2, 0, 0x1A, 0x1A]],
               nread := 3\<rparr>)"
  using validateSequence_polls [of 2 "init 0 0 (\<lambda>k. if k < 2 then [0, 0, 0, 0, 0x81] else [0, 0, 0, 0, 0x00])"]
  by (simp add: init_def validation_busy_def validation_done_def eval_nat_numeral)

section \<open>The pattern-sequence upload\<close>

lemma writer_simps:
  "setPatternInputSource 3 s =
     (1, s\<lparr>seqN := seqN s + 1, written := written s @ [frame (seqN s) 0x1A 0x22 [3]]\<rparr>)"
  "LUTControl lutEntries repeat nrOfPattern flashImages s =
     (1, s\<lparr>seqN := seqN s + 1,
          written := written s @ [frame (seqN s) 0x1A 0x31
             [(lutEntries - 1) AND 0x7F, repeat AND 0x01, nrOfPattern - 1,
              (flashImages - 1) AND 0x3F]]\<rparr>)"
  "setPatternExposureTime expTime 0 s =
     (1, s\<lparr>seqN := seqN s + 1,
          exposureTime := Some (int2bytesLSB expTime), framePeriod := Some (int2bytesLSB expTime),
          written := written s @ [frame (seqN s) 0x1A 0x29
             (int2bytesLSB expTime @ int2bytesLSB expTime)]\<rparr>)"
  "setPatternTriggerMode mode s =
     (if mode > 4 then (- 1, s)
      else (1, s\<lparr>seqN := seqN s + 1, written := written s @ [frame (seqN s) 0x1A 0x23 [mode]]\<rparr>))"
  "openMailbox 2 s =
     (1, s\<lparr>seqN := seqN s + 1, written := written s @ [frame (seqN s) 0x1A 0x33 [2]]\<rparr>)"
  "openMailbox 1 s =
     (1, s\<lparr>seqN := seqN s + 1, written := written s @ [frame (seqN s) 0x1A 0x33 [1]]\<rparr>)"
  "setLUTOffsetPointer 0 s =
     (1, s\<lparr>seqN := seqN s + 1, written := written s @ [frame (seqN s) 0x1A 0x32 [0]]\<rparr>)"
  "fillPatternData data s =
     (1, s\<lparr>seqN := seqN s + 1, written := written s @ [frame (seqN s) 0x1A 0x34 data]\<rparr>)"
  "closeMailboxes s =
     (1, s\<lparr>seqN := seqN s + 1, written := written s @ [frame (seqN s) 0x1A 0x33 [0]]\<rparr>)"
  "setFlashImageIndexes indexes s =
     (1, s\<lparr>seqN := seqN s + 1, written := written s @ [frame (seqN s) 0x1A 0x34 indexes]\<rparr>)"
  by (simp_all add: setPatternInputSource_def LUTControl_def setPatternExposureTime_def
      setPatternTriggerMode_def openMailbox_def setLUTOffsetPointer_def fillPatternData_def
      closeMailboxes_def setFlashImageIndexes_def buildPacket_write hid_write_def)

text \<open>
  Claim C4, amended. When the lists pass the shape checks and the trigger mode is at
  most 4, \<^verbatim>\<open>sendPatternSequence\<close> writes exactly twelve frames, with consecutive
  sequence numbers and in the order: pattern input source 3, LUT control, exposure time
  and frame period, trigger mode, open mailbox 2, LUT offset 0, the pattern data, close
  mailboxes, open mailbox 1, LUT offset 0, the flash image indexes, close mailboxes.
  It reads nothing, and returns normally.
\<close>

theorem sendPatternSequence_twelve_writes:
  assumes "length sequence mod 3 = 0" and "length sequence \<noteq> 0"
    and "length flashIndexes \<noteq> 0" and "length flashIndexes \<le> length sequence div 3"
    and "triggerMode \<le> 4"
  shows "sendPatternSequence sequence flashIndexes displayTime triggerMode repeat s =
     (Inr (),
      s\<lparr>seqN := seqN s + 12,
        exposureTime := Some (int2bytesLSB displayTime),
        framePeriod := Some (int2bytesLSB displayTime),
        written := written s @
          [frame (seqN s) 0x1A 0x22 [3],
           frame (seqN s + 1) 0x1A 0x31
             [(int (length sequence) div 3 - 1) AND 0x7F, repeat AND 0x01,
              int (length sequence) div 3 - 1, (int (length flashIndexes) - 1) AND 0x3F],
           frame (seqN s + 2) 0x1A 0x29 (int2bytesLSB displayTime @ int2bytesLSB displayTime),
           frame (seqN s + 3) 0x1A 0x23 [triggerMode],
           frame (seqN s + 4) 0x1A 0x33 [2],
           frame (seqN s + 5) 0x1A 0x32 [0],
           frame (seqN s + 6) 0x1A 0x34 sequence,
           frame (seqN s + 7) 0x1A 0x33 [0],
           frame (seqN s + 8) 0x1A 0x33 [1],
           frame (seqN s + 9) 0x1A 0x32 [0],
           frame (seqN s + 10) 0x1A 0x34 flashIndexes,
           frame (seqN s + 11) 0x1A 0x33 [0]]\<rparr>)"
proof -
  have seq_ok: "\<not> (int (length sequence) mod 3 \<noteq> 0 \<or> int (length sequence) div 3 = 0)"
    using assms(1,2) by presburger
  have flash_ok: "\<not> (int (length flashIndexes) = 0
      \<or> int (length flashIndexes) > int (length sequence) div 3)"
    using assms(3,4) by presburger
  show ?thesis
    unfolding sendPatternSequence_def Let_def if_not_P [OF seq_ok] if_not_P [OF flash_ok]
    using assms(5) by (simp add: writer_simps add.commute)
qed

theorem sendPatternSequence_twelve_writes_witness:
  "sendPatternSequence [0x00, 0x21, 0x06] [0x08] 100000 1 0 (init 0 1 fakehid) =
     (Inr (),
      (init 0 1 fakehid)
        \<lparr>seqN := 13,
         exposureTime := Some [0xA0, 0x86, 0x01, 0x00],
         framePeriod := Some [0xA0, 0x86, 0x01, 0x00],
         written :=
          [[0, 0, 1, 3, 0, 0x22, 0x1A, 3],
           [0, 0, 2, 6, 0, 0x31, 0x1A, 0, 0, 0, 0],
           [0, 0, 3, 10, 0, 0x29, 0x1A, 0xA0, 0x86, 0x01, 0x00, 0xA0, 0x86, 0x01, 0x00],
           [0, 0, 4, 3, 0, 0x23, 0x1A, 1],
           [0, 0, 5, 3, 0, 0x33, 0x1A, 2],
           [0, 0, 6, 3, 0, 0x32, 0x1A, 0],
           [0, 0, 7, 5, 0, 0x34, 0x1A, 0x00, 0x21, 0x06],
           [0, 0, 8, 3, 0, 0x33, 0x1A, 0],
           [0, 0, 9, 3, 0, 0x33, 0x1A, 1],
           [0, 0, 10, 3, 0, 0x32, 0x1A, 0],
           [0, 0, 11, 3, 0, 0x34, 0x1A, 0x08],
           [0, 0, 12, 3, 0, 0x33, 0x1A, 0]]\<rparr>)"
  using sendPatternSequence_twelve_writes [of "[0x00, 0x21, 0x06]" "[0x08]" 1 100000 0 "init 0 1 fakehid"]
  by (simp add: init_def frame_def int2bytesLSB_def drop_bit_eq_div and_255_mod)

text \<open>
  Claim C4 as stated also covers trigger modes above 4. There
  \<^verbatim>\<open>setPatternTriggerMode\<close> returns \<open>-1\<close> without writing, the upload goes on,
  and the transport sees eleven frames: with the default lists and trigger mode 5 the
  trigger-mode frame is missing.
\<close>

theorem sendPatternSequence_eleven_writes:
  "fst (sendPatternSequence [0x00, 0x21, 0x06] [0x08] 100000 5 0 (init 0 1 fakehid)) = Inr ()
   \<and> written (snd (sendPatternSequence [0x00, 0x21, 0x06] [0x08] 100000 5 0 (init 0 1 fakehid))) =
          [[0, 0, 1, 3, 0, 0x22, 0x1A, 3],
           [0, 0, 2, 6, 0, 0x31, 0x1A, 0, 0, 0, 0],
           [0, 0, 3, 10, 0, 0x29, 0x1A, 0xA0, 0x86, 0x01, 0x00, 0xA0, 0x86, 0x01, 0x00],
           [0, 0, 4, 3, 0, 0x33, 0x1A, 2],
           [0, 0, 5, 3, 0, 0x32, 0x1A, 0],
           [0, 0, 6, 5, 0, 0x34, 0x1A, 0x00, 0x21, 0x06],
           [0, 0, 7, 3, 0, 0x33, 0x1A, 0],
           [0, 0, 8, 3, 0, 0x33, 0x1A, 1],
           [0, 0, 9, 3, 0, 0x32, 0x1A, 0],
           [0, 0, 10, 3, 0, 0x34, 0x1A, 0x08],
           [0, 0, 11, 3, 0, 0x33, 0x1A, 0]]
   \<and> length (written (snd (sendPatternSequence [0x00, 0x21, 0x06] [0x08] 100000 5 0
          (init 0 1 fakehid)))) = 11"
  by (simp add: sendPatternSequence_def Let_def writer_simps init_def frame_def int2bytesLSB_def
      drop_bit_eq_div and_255_mod)

section \<open>Rounding to a double\<close>

lemma pow2_powi: "pow2 e = 2 powi e"
  by (simp add: pow2_def power_int_def inverse_eq_divide power_one_over)

lemma pow2_pos: "0 < pow2 e"
  by (simp add: pow2_powi)

lemma pow2_add: "pow2 (a + b) = pow2 a * pow2 b"
  by (simp add: pow2_powi power_int_add)

lemma pow2_mono: "a \<le> b \<Longrightarrow> pow2 a \<le> pow2 b"
  by (simp add: pow2_powi power_int_increasing)

lemma pow2_strict_mono: "a < b \<Longrightarrow> pow2 a < pow2 b"
  by (simp add: pow2_powi power_int_strict_increasing)

lemma pow2_less_iff: "pow2 a < pow2 b \<longleftrightarrow> a < b"
  using pow2_mono [of b a] pow2_strict_mono [of a b] by (cases "a < b") auto

lemma pow2_le_iff: "pow2 a \<le> pow2 b \<longleftrightarrow> a \<le> b"
  using pow2_mono [of a b] pow2_strict_mono [of b a] by (cases "a \<le> b") auto

lemma pow2_nat: "pow2 (int k) = 2 ^ k"
  by (simp add: pow2_def)

lemma pow2_neg_nat: "pow2 (- int k) = 1 / 2 ^ k"
  by (cases k) (simp_all add: pow2_def nat_add_distrib)

lemma of_int_le_two_power: "i \<le> 2 ^ k \<Longrightarrow> (of_int i :: rat) \<le> 2 ^ k"
  by (metis of_int_le_iff of_int_numeral of_int_power)

lemma two_power_le_of_int: "2 ^ k \<le> i \<Longrightarrow> (2 ^ k :: rat) \<le> of_int i"
  by (metis of_int_le_iff of_int_numeral of_int_power)

lemma exponent2_bounds:
  assumes "0 < x"
  shows "pow2 (exponent2 x) \<le> x \<and> x < pow2 (exponent2 x + 1)"
proof (cases "1 \<le> x")
  case True
  define n where "n = \<lfloor>x\<rfloor>"
  have n: "0 < n" using True by (simp add: n_def)
  from bitlen_bounds [OF n] have lo: "2 ^ nat (bitlen n - 1) \<le> n" and hi: "n < 2 ^ nat (bitlen n)"
    by simp_all
  have b1: "1 \<le> bitlen n" using n bitlen_eq_zero_iff [of n] bitlen_nonneg [of n] by linarith
  have e: "exponent2 x = bitlen n - 1" using True by (simp add: exponent2_def n_def)
  have fl: "of_int n \<le> x" "x < of_int n + 1"
    using floor_correct [of x] by (simp_all add: n_def)
  have p1: "pow2 (bitlen n - 1) = 2 ^ nat (bitlen n - 1)"
    using b1 by (simp add: pow2_def)
  have p2: "pow2 (bitlen n - 1 + 1) = 2 ^ nat (bitlen n)"
    using b1 by (simp add: pow2_def)
  have "(2 ^ nat (bitlen n - 1) :: rat) \<le> of_int n" using lo by (rule two_power_le_of_int)
  then have l: "pow2 (exponent2 x) \<le> x" unfolding e p1 using fl(1) by linarith
  have "n + 1 \<le> 2 ^ nat (bitlen n)" using hi by simp
  then have "(of_int (n + 1) :: rat) \<le> 2 ^ nat (bitlen n)" by (rule of_int_le_two_power)
  then have "x < pow2 (exponent2 x + 1)" unfolding e p2 using fl(2) by simp
  with l show ?thesis by simp
next
  case False
  define m where "m = \<lceil>1 / x\<rceil>"
  define k where "k = bitlen (m - 1)"
  have y: "1 < 1 / x" using False assms by simp
  have m2: "0 < m - 1" using y by (simp add: m_def less_ceiling_iff)
  from bitlen_bounds [OF m2] have lo: "2 ^ nat (k - 1) \<le> m - 1" and hi: "m - 1 < 2 ^ nat k"
    by (simp_all add: k_def)
  have k1: "1 \<le> k" using m2 bitlen_eq_zero_iff [of "m - 1"] bitlen_nonneg [of "m - 1"]
    by (simp add: k_def)
  have e: "exponent2 x = - k" using False by (simp add: exponent2_def m_def k_def)
  have ce: "of_int m - 1 < 1 / x" "1 / x \<le> of_int m"
    using ceiling_correct [of "1 / x"] by (simp_all add: m_def)
  have p1: "pow2 (- k) = 1 / 2 ^ nat k"
    using k1 pow2_neg_nat [of "nat k"] by simp
  have p2: "pow2 (1 - k) = 1 / 2 ^ nat (k - 1)"
    using k1 pow2_neg_nat [of "nat (k - 1)"] by simp
  have "m \<le> 2 ^ nat k" using hi by simp
  then have "(of_int m :: rat) \<le> 2 ^ nat k" by (rule of_int_le_two_power)
  then have "1 / x \<le> 2 ^ nat k" using ce(2) by linarith
  then have "1 / 2 ^ nat k \<le> x" using assms by (simp add: field_simps)
  then have l: "pow2 (exponent2 x) \<le> x" by (simp add: e p1)
  have "(2 ^ nat (k - 1) :: rat) \<le> of_int (m - 1)" using lo by (rule two_power_le_of_int)
  then have "2 ^ nat (k - 1) < 1 / x" using ce(1) by simp
  then have "x < 1 / 2 ^ nat (k - 1)" using assms by (simp add: field_simps)
  then have "x < pow2 (exponent2 x + 1)" by (simp add: e p2)
  with l show ?thesis by simp
qed

lemma exponent2_unique:
  assumes "pow2 e \<le> x" and "x < pow2 (e + 1)"
  shows "exponent2 x = e"
proof -
  have pos: "0 < x" using assms(1) pow2_pos [of e] by linarith
  from exponent2_bounds [OF pos] have b: "pow2 (exponent2 x) \<le> x" "x < pow2 (exponent2 x + 1)"
    by simp_all
  have "pow2 (exponent2 x) < pow2 (e + 1)" using b(1) assms(2) by linarith
  then have 1: "exponent2 x < e + 1" by (simp add: pow2_less_iff)
  have "pow2 e < pow2 (exponent2 x + 1)" using b(2) assms(1) by linarith
  then have 2: "e < exponent2 x + 1" by (simp add: pow2_less_iff)
  from 1 2 show ?thesis by simp
qed

lemma fl_eval:
  assumes "pow2 e \<le> \<bar>x\<bar>" and "\<bar>x\<bar> < pow2 (e + 1)"
  shows "fl x = of_int (round_half_even (x / pow2 (e - 52))) * pow2 (e - 52)"
proof -
  have "x \<noteq> 0" using assms(1) pow2_pos [of e] by auto
  moreover have "exponent2 \<bar>x\<bar> = e" using assms by (rule exponent2_unique)
  ultimately show ?thesis by (simp add: fl_def Let_def)
qed

lemma round_half_even_err: "\<bar>of_int (round_half_even y) - y\<bar> \<le> 1 / 2"
proof -
  have "of_int \<lfloor>y\<rfloor> \<le> y" "y < of_int \<lfloor>y\<rfloor> + 1"
    using floor_correct [of y] by simp_all
  then show ?thesis
    by (auto simp: round_half_even_def Let_def)
qed

lemma round_half_even_of_int: "round_half_even (of_int m) = m"
  by (simp add: round_half_even_def)

lemma fl_err:
  assumes "pow2 e \<le> \<bar>x\<bar>" and "\<bar>x\<bar> < pow2 (e + 1)"
  shows "\<bar>fl x - x\<bar> \<le> pow2 (e - 53)"
proof -
  let ?u = "pow2 (e - 52)"
  let ?m = "round_half_even (x / ?u)"
  have u: "0 < ?u" by (rule pow2_pos)
  have half: "?u = 2 * pow2 (e - 53)"
    using pow2_add [of 1 "e - 53"] by (simp add: pow2_def)
  have "fl x - x = (of_int ?m - x / ?u) * ?u"
    using u by (simp add: fl_eval [OF assms] field_simps)
  then have "\<bar>fl x - x\<bar> = \<bar>of_int ?m - x / ?u\<bar> * ?u"
    using u by (simp add: abs_mult)
  also have "\<dots> \<le> 1 / 2 * ?u"
    using round_half_even_err [of "x / ?u"] u by (intro mult_right_mono) simp_all
  finally show ?thesis using half by simp
qed

lemma fl_err_less:
  assumes "\<bar>x\<bar> < pow2 k"
  shows "\<bar>fl x - x\<bar> \<le> pow2 (k - 54)"
proof (cases "x = 0")
  case True
  then show ?thesis using pow2_pos [of "k - 54"] by (simp add: fl_def)
next
  case False
  then have pos: "0 < \<bar>x\<bar>" by simp
  from exponent2_bounds [OF pos]
  have b: "pow2 (exponent2 \<bar>x\<bar>) \<le> \<bar>x\<bar>" "\<bar>x\<bar> < pow2 (exponent2 \<bar>x\<bar> + 1)"
    by simp_all
  have "pow2 (exponent2 \<bar>x\<bar>) < pow2 k" using b(1) assms by linarith
  then have "exponent2 \<bar>x\<bar> - 53 \<le> k - 54" by (simp add: pow2_less_iff)
  then have "pow2 (exponent2 \<bar>x\<bar> - 53) \<le> pow2 (k - 54)" by (rule pow2_mono)
  with fl_err [OF b] show ?thesis by linarith
qed

lemma round_half_even_dyadic: "round_half_even (of_int n / 2 ^ sh) = rne n sh"
proof -
  let ?d = "2 ^ sh :: int"
  have d: "(2 ^ sh :: rat) = of_int ?d" by simp
  have fl: "\<lfloor>of_int n / (2 ^ sh :: rat)\<rfloor> = n div ?d"
    unfolding d by (rule floor_divide_of_int_eq)
  have n: "n = (n div ?d) * ?d + n mod ?d" by (simp only: div_mult_mod_eq)
  have frac: "of_int n / (2 ^ sh :: rat) - of_int (n div ?d) = of_int (n mod ?d) / of_int ?d"
  proof -
    have "(of_int n :: rat) = of_int (n div ?d) * of_int ?d + of_int (n mod ?d)"
      by (metis n of_int_add of_int_mult)
    then show ?thesis unfolding d by (simp add: field_simps)
  qed
  have c1: "(of_int (n mod ?d) / of_int ?d < (1 / 2 :: rat)) \<longleftrightarrow> 2 * (n mod ?d) < ?d"
  proof -
    have "(of_int (n mod ?d) / of_int ?d < (1 / 2 :: rat)) \<longleftrightarrow>
        (of_int (2 * (n mod ?d)) :: rat) < of_int ?d"
      by (simp add: field_simps)
    then show ?thesis by (simp only: of_int_less_iff)
  qed
  have c2: "((1 / 2 :: rat) < of_int (n mod ?d) / of_int ?d) \<longleftrightarrow> ?d < 2 * (n mod ?d)"
  proof -
    have "((1 / 2 :: rat) < of_int (n mod ?d) / of_int ?d) \<longleftrightarrow>
        (of_int ?d :: rat) < of_int (2 * (n mod ?d))"
      by (simp add: field_simps)
    then show ?thesis by (simp only: of_int_less_iff)
  qed
  show ?thesis
    unfolding round_half_even_def rne_def Let_def fl frac c1 c2 ..
qed

lemma exponent2_dyadic:
  assumes "0 < n"
  shows "exponent2 (of_int n / 2 ^ k) = bitlen n - 1 - int k"
proof (rule exponent2_unique)
  from bitlen_bounds [OF assms] have lo: "2 ^ nat (bitlen n - 1) \<le> n" and hi: "n < 2 ^ nat (bitlen n)"
    by simp_all
  have b1: "1 \<le> bitlen n" using assms bitlen_eq_zero_iff [of n] bitlen_nonneg [of n] by linarith
  have lo': "(2 ^ nat (bitlen n - 1) :: rat) \<le> of_int n" using lo by (rule two_power_le_of_int)
  have "n + 1 \<le> 2 ^ nat (bitlen n)" using hi by simp
  then have "(of_int (n + 1) :: rat) \<le> 2 ^ nat (bitlen n)" by (rule of_int_le_two_power)
  moreover have "(of_int (n + 1) :: rat) = of_int n + 1" by simp
  ultimately have hi': "(of_int n :: rat) < 2 ^ nat (bitlen n)" by linarith
  have p1: "pow2 (bitlen n - 1 - int k) = 2 ^ nat (bitlen n - 1) / 2 ^ k"
    using pow2_add [of "bitlen n - 1" "- int k"] b1 pow2_nat [of "nat (bitlen n - 1)"]
    by (simp add: pow2_neg_nat)
  have p2: "pow2 (bitlen n - 1 - int k + 1) = 2 ^ nat (bitlen n) / 2 ^ k"
    using pow2_add [of "bitlen n" "- int k"] b1 pow2_nat [of "nat (bitlen n)"]
    by (simp add: pow2_neg_nat)
  show "pow2 (bitlen n - 1 - int k) \<le> of_int n / 2 ^ k"
    unfolding p1 using lo' by (simp add: divide_right_mono)
  show "of_int n / 2 ^ k < pow2 (bitlen n - 1 - int k + 1)"
    unfolding p2 using hi' by (simp add: divide_strict_right_mono)
qed

lemma fl_dyadic:
  assumes "0 \<le> n"
  shows "fl (of_int n / 2 ^ k) = of_int (rnd53 n) / 2 ^ k"
proof (cases "n = 0")
  case True
  then show ?thesis by (simp add: fl_def rnd53_def)
next
  case False
  with assms have n: "0 < n" by simp
  let ?x = "of_int n / 2 ^ k :: rat"
  have x: "0 < ?x" using n by simp
  have ax: "\<bar>?x\<bar> = ?x" using x by (rule abs_of_pos)
  have e: "exponent2 \<bar>?x\<bar> = bitlen n - 1 - int k"
    unfolding ax by (rule exponent2_dyadic [OF n])
  have "bitlen n - 1 - int k - 52 = (bitlen n - 53) + (- int k)" by simp
  then have u: "pow2 (bitlen n - 1 - int k - 52) = pow2 (bitlen n - 53) / 2 ^ k"
    by (simp only: pow2_add pow2_neg_nat) simp
  have up: "0 < pow2 (bitlen n - 53)" by (rule pow2_pos)
  have q: "?x / (pow2 (bitlen n - 53) / 2 ^ k) = of_int n / pow2 (bitlen n - 53)"
    by simp
  have fl: "fl ?x = of_int (round_half_even (of_int n / pow2 (bitlen n - 53)))
      * (pow2 (bitlen n - 53) / 2 ^ k)"
  proof -
    have nz: "?x \<noteq> 0" using n by simp
    show ?thesis
      unfolding fl_def e u Let_def q if_not_P [OF nz] ..
  qed
  show ?thesis
  proof (cases "bitlen n \<le> 53")
    case True
    define j where "j = nat (53 - bitlen n)"
    have p: "pow2 (bitlen n - 53) = 1 / 2 ^ j"
      using True pow2_neg_nat [of j] by (simp add: j_def)
    have "of_int n / pow2 (bitlen n - 53) = (of_int (n * 2 ^ j) :: rat)"
      by (simp add: p)
    then have "round_half_even (of_int n / pow2 (bitlen n - 53)) = n * 2 ^ j"
      by (simp only: round_half_even_of_int)
    then show ?thesis
      using True by (simp add: fl rnd53_def p)
  next
    case False
    define sh where "sh = nat (bitlen n - 53)"
    have p: "pow2 (bitlen n - 53) = 2 ^ sh"
      using False pow2_nat [of sh] by (simp add: sh_def)
    show ?thesis
      using False by (simp add: fl rnd53_def p round_half_even_dyadic sh_def)
  qed
qed

lemma fl_of_int:
  assumes "0 \<le> n" and "bitlen n \<le> 53"
  shows "fl (of_int n) = of_int n"
  using fl_dyadic [OF assms(1), of 0] assms(2) by (simp add: rnd53_def)

lemma rne_nonneg: "0 \<le> n \<Longrightarrow> 0 \<le> rne n sh"
  by (simp add: rne_def Let_def pos_imp_zdiv_nonneg_iff)

lemma rnd53_nonneg: "0 \<le> n \<Longrightarrow> 0 \<le> rnd53 n"
  by (simp add: rnd53_def rne_nonneg)

lemma bitlen_eqI:
  assumes "2 ^ k \<le> n" and "n < 2 ^ Suc k"
  shows "bitlen n = int k + 1"
proof -
  have n: "0 < n" using assms(1) by (smt (verit) zero_less_power)
  from bitlen_bounds [OF n] have lo: "2 ^ nat (bitlen n - 1) \<le> n" and hi: "n < 2 ^ nat (bitlen n)"
    by simp_all
  have b1: "1 \<le> bitlen n" using n bitlen_eq_zero_iff [of n] bitlen_nonneg [of n] by linarith
  have "(2::int) ^ k < 2 ^ nat (bitlen n)" using assms(1) hi by linarith
  then have 1: "k < nat (bitlen n)" by simp
  have "(2::int) ^ nat (bitlen n - 1) < 2 ^ Suc k" using assms(2) lo by linarith
  then have 2: "nat (bitlen n - 1) < Suc k" by (simp only: power_strict_increasing_iff) 
  from 1 2 b1 show ?thesis by linarith
qed

lemma rne_by: "rne n sh * 2 ^ sh = rne_by n (2 ^ sh)"
  by (simp add: rne_def rne_by_def Let_def)

lemma rnd53_small: "0 \<le> n \<Longrightarrow> n < 2 ^ 53 \<Longrightarrow> rnd53 n = n"
proof -
  assume a: "0 \<le> n" "n < 2 ^ 53"
  have "bitlen n \<le> 53"
    using a by (simp add: bitlen_le_iff_power)
  then show ?thesis by (simp add: rnd53_def)
qed

lemma rnd53_at:
  assumes "2 ^ (52 + sh) \<le> n" and "n < 2 ^ (53 + sh)"
  shows "rnd53 n = rne_by n (2 ^ sh)"
proof -
  have "bitlen n = int (52 + sh) + 1" using assms by (intro bitlen_eqI) simp_all
  then show ?thesis by (simp add: rnd53_def rne_by [symmetric] rne_def Let_def)
qed

lemma rnd53_cascade:
  assumes "0 \<le> n" and "n < 2 ^ 63"
  shows "rnd53 n = rnd53c n"
  using assms rnd53_small [of n] rnd53_at [of 1 n] rnd53_at [of 2 n] rnd53_at [of 3 n]
    rnd53_at [of 4 n] rnd53_at [of 5 n] rnd53_at [of 6 n] rnd53_at [of 7 n] rnd53_at [of 8 n]
    rnd53_at [of 9 n] rnd53_at [of 10 n]
  by (simp add: rnd53c_def)

section \<open>The LED current guard on bytes\<close>

text \<open>The five literals of \<^verbatim>\<open>checkLedCurrent\<close> as doubles, scaled by \<open>2 ^ 60\<close>.\<close>

lemma lit69: "fl (69 / 10000) = of_int 7955158381787244 / 2 ^ 60"
  by code_simp

lemma lit71: "fl (71 / 10000) = of_int 8185742682708614 / 2 ^ 60"
  by code_simp

lemma lit63: "fl (63 / 10000) = of_int 7263405479023136 / 2 ^ 60"
  by code_simp

lemma lit9611: "fl (9611 / 10000) = of_int 1108072858077640576 / 2 ^ 60"
  by code_simp

lemma lit42: "fl (42 / 10) = of_int 4842270319348757504 / 2 ^ 60"
  by code_simp

lemma float_of_int_small:
  assumes "0 \<le> n" and "n < 2 ^ 53"
  shows "float_of_int n = Inr (of_int n)"
proof -
  have bl: "bitlen n \<le> 53" using assms by (simp add: bitlen_le_iff_power)
  have f: "fl (of_int n) = of_int n" using assms(1) bl by (rule fl_of_int)
  have "\<not> (of_int n \<noteq> (0::rat) \<and> 1024 \<le> exponent2 \<bar>of_int n\<bar>)"
  proof (cases "n = 0")
    case True
    then show ?thesis by simp
  next
    case False
    with assms(1) have n: "0 < n" by simp
    have "exponent2 (of_int n / 2 ^ 0) = bitlen n - 1 - int 0" using n by (rule exponent2_dyadic)
    then have "exponent2 \<bar>of_int n\<bar> = bitlen n - 1" using n by simp
    with bl show ?thesis by simp
  qed
  then show ?thesis by (simp add: float_of_int_def f Let_def)
qed

lemma fl_scaled:
  assumes "0 \<le> n" and "n < 2 ^ (60 + j)" and "j \<le> 3"
  shows "fl (of_int n / 2 ^ 60) = of_int (rnd53c n) / 2 ^ 60"
    and "0 \<le> rnd53c n"
    and "\<bar>rnd53c n - n\<bar> \<le> 2 ^ (6 + j)"
proof -
  have "(2::int) ^ (60 + j) \<le> 2 ^ 63" using assms(3) by (intro power_increasing) simp_all
  then have n63: "n < 2 ^ 63" using assms(2) by linarith
  have c: "rnd53 n = rnd53c n" using assms(1) n63 by (rule rnd53_cascade)
  show eq: "fl (of_int n / 2 ^ 60) = of_int (rnd53c n) / 2 ^ 60"
    using fl_dyadic [OF assms(1), of 60] by (simp add: c)
  show "0 \<le> rnd53c n" using rnd53_nonneg [OF assms(1)] by (simp add: c)
  let ?x = "of_int n / 2 ^ 60 :: rat"
  have "(of_int n :: rat) < 2 ^ (60 + j)"
    using assms(2) by (metis of_int_less_iff of_int_numeral of_int_power)
  then have "?x < 2 ^ j" by (simp add: power_add field_simps)
  moreover have "0 \<le> ?x" using assms(1) by simp
  ultimately have "\<bar>?x\<bar> < pow2 (int j)" by (simp add: pow2_nat)
  then have e1: "\<bar>fl ?x - ?x\<bar> \<le> pow2 (int j - 54)" by (rule fl_err_less)
  have e2: "pow2 (int j - 54) = 2 ^ (6 + j) / 2 ^ 60"
  proof -
    have "int j - 54 = int (6 + j) + (- int 60)" by simp
    then show ?thesis by (simp only: pow2_add pow2_nat pow2_neg_nat) simp
  qed
  have e3: "fl ?x - ?x = of_int (rnd53c n - n) / 2 ^ 60"
    by (simp only: eq of_int_diff diff_divide_distrib)
  have "\<bar>of_int (rnd53c n - n) / 2 ^ 60 :: rat\<bar> \<le> 2 ^ (6 + j) / 2 ^ 60"
    using e1 unfolding e2 e3 .
  then have "\<bar>of_int (rnd53c n - n) :: rat\<bar> \<le> 2 ^ (6 + j)"
    by (simp add: divide_le_cancel)
  then have "(of_int \<bar>rnd53c n - n\<bar> :: rat) \<le> of_int (2 ^ (6 + j))" by simp
  then show "\<bar>rnd53c n - n\<bar> \<le> 2 ^ (6 + j)" by (simp only: of_int_le_iff)
qed

text \<open>
  The byte triples whose exact total is 4.2, row by row: for each the computed total is
  at most the double 4.2.
\<close>

lemma boundary_rows_0: "list_all boundary_row [0..31]"
  by code_simp

lemma boundary_rows_1: "list_all boundary_row [32..63]"
  by code_simp

lemma boundary_rows_2: "list_all boundary_row [64..95]"
  by code_simp

lemma boundary_rows_3: "list_all boundary_row [96..127]"
  by code_simp

lemma boundary_rows_4: "list_all boundary_row [128..159]"
  by code_simp

lemma boundary_rows_5: "list_all boundary_row [160..191]"
  by code_simp

lemma boundary_rows_6: "list_all boundary_row [192..223]"
  by code_simp

lemma boundary_rows_7: "list_all boundary_row [224..255]"
  by code_simp

lemma boundary_total:
  assumes "0 \<le> r" "r \<le> 255" "0 \<le> g" "g \<le> 255" "0 \<le> b" "b \<le> 255"
    and "69 * r + 71 * g + 63 * b = 32389"
  shows "total_scaled r g b \<le> 4842270319348757504"
proof -
  have c0: "0 \<le> r \<Longrightarrow> r \<le> 31 \<Longrightarrow> boundary_row r"
    using boundary_rows_0 by (simp only: list_all_iff set_upto atLeastAtMost_iff)
  have c1: "32 \<le> r \<Longrightarrow> r \<le> 63 \<Longrightarrow> boundary_row r"
    using boundary_rows_1 by (simp only: list_all_iff set_upto atLeastAtMost_iff)
  have c2: "64 \<le> r \<Longrightarrow> r \<le> 95 \<Longrightarrow> boundary_row r"
    using boundary_rows_2 by (simp only: list_all_iff set_upto atLeastAtMost_iff)
  have c3: "96 \<le> r \<Longrightarrow> r \<le> 127 \<Longrightarrow> boundary_row r"
    using boundary_rows_3 by (simp only: list_all_iff set_upto atLeastAtMost_iff)
  have c4: "128 \<le> r \<Longrightarrow> r \<le> 159 \<Longrightarrow> boundary_row r"
    using boundary_rows_4 by (simp only: list_all_iff set_upto atLeastAtMost_iff)
  have c5: "160 \<le> r \<Longrightarrow> r \<le> 191 \<Longrightarrow> boundary_row r"
    using boundary_rows_5 by (simp only: list_all_iff set_upto atLeastAtMost_iff)
  have c6: "192 \<le> r \<Longrightarrow> r \<le> 223 \<Longrightarrow> boundary_row r"
    using boundary_rows_6 by (simp only: list_all_iff set_upto atLeastAtMost_iff)
  have c7: "224 \<le> r \<Longrightarrow> r \<le> 255 \<Longrightarrow> boundary_row r"
    using boundary_rows_7 by (simp only: list_all_iff set_upto atLeastAtMost_iff)
  have "(0 \<le> r \<and> r \<le> 31) \<or> (32 \<le> r \<and> r \<le> 63) \<or> (64 \<le> r \<and> r \<le> 95) \<or> (96 \<le> r \<and> r \<le> 127) \<or> (128 \<le> r \<and> r \<le> 159) \<or> (160 \<le> r \<and> r \<le> 191) \<or> (192 \<le> r \<and> r \<le> 223) \<or> (224 \<le> r \<and> r \<le> 255)"
    using assms(1,2) by linarith
  then have row: "boundary_row r"
    using c0 c1 c2 c3 c4 c5 c6 c7 by blast
  have "8 * (69 * r + 71 * g + 63 * b) = 8 * 32389" using assms(7) by simp
  then have "56 - 48 * r = g + 63 * (9 * g + 8 * b + 8 * r - 4112)"
    by (simp add: algebra_simps)
  then have gm: "(56 - 48 * r) mod 63 = g mod 63" by (metis mod_mult_self2)
  have "0 \<le> g div 63" using assms(3) by simp
  moreover have "g div 63 \<le> 4" using assms(4) by simp
  ultimately have j: "g div 63 \<in> {0, 1, 2, 3, 4}" by auto
  have g: "(56 - 48 * r) mod 63 + 63 * (g div 63) = g"
    unfolding gm by simp
  from row j have "boundary_ok r ((56 - 48 * r) mod 63 + 63 * (g div 63))"
    unfolding boundary_row_def list_all_iff by auto
  then have ok: "boundary_ok r g" unfolding g .
  have n: "32389 - 69 * r - 71 * g = 63 * b" using assms(7) by simp
  show ?thesis
    using ok assms(4,5,6) unfolding boundary_ok_def n Let_def by simp
qed

lemma total_scaled_in_range:
  assumes "0 \<le> r" "r \<le> 255" "0 \<le> g" "g \<le> 255" "0 \<le> b" "b \<le> 255"
  shows "totalCurrent r g b = Inr (of_int (total_scaled r g b) / 2 ^ 60)"
    and "\<bar>total_scaled r g b
          - (r * 7955158381787244 + g * 8185742682708614 + b * 7263405479023136
             + 1108072858077640576)\<bar> \<le> 1664"
proof -
  define D :: rat where "D = 2 ^ 60"
  define P1 where "P1 = rnd53c (r * 7955158381787244)"
  define P2 where "P2 = rnd53c (g * 8185742682708614)"
  define P3 where "P3 = rnd53c (b * 7263405479023136)"
  define S1 where "S1 = rnd53c (P1 + P2)"
  define S2 where "S2 = rnd53c (S1 + P3)"
  define T where "T = rnd53c (S2 + 1108072858077640576)"
  have T: "total_scaled r g b = T"
    by (simp only: total_scaled_def T_def S2_def S1_def P1_def P2_def P3_def)
  have three: "(1::nat) \<le> 3" "(2::nat) \<le> 3" "(3::nat) \<le> 3" by simp_all

  have r1: "0 \<le> r * 7955158381787244" "r * 7955158381787244 < 2 ^ (60 + 1)"
    using assms(1,2) by simp_all
  note p1 = fl_scaled [OF r1 three(1), folded P1_def D_def]
  have r2: "0 \<le> g * 8185742682708614" "g * 8185742682708614 < 2 ^ (60 + 1)"
    using assms(3,4) by simp_all
  note p2 = fl_scaled [OF r2 three(1), folded P2_def D_def]
  have r3: "0 \<le> b * 7263405479023136" "b * 7263405479023136 < 2 ^ (60 + 1)"
    using assms(5,6) by simp_all
  note p3 = fl_scaled [OF r3 three(1), folded P3_def D_def]
  have e1: "\<bar>P1 - r * 7955158381787244\<bar> \<le> 128" using p1(3) by simp
  have e2: "\<bar>P2 - g * 8185742682708614\<bar> \<le> 128" using p2(3) by simp
  have e3: "\<bar>P3 - b * 7263405479023136\<bar> \<le> 128" using p3(3) by simp

  have r4: "0 \<le> P1 + P2" "P1 + P2 < 2 ^ (60 + 2)"
    using p1(2) p2(2) e1 e2 assms(2,4) by simp_all
  note s1 = fl_scaled [OF r4 three(2), folded S1_def D_def]
  have e4: "\<bar>S1 - (P1 + P2)\<bar> \<le> 256" using s1(3) by simp

  have r5: "0 \<le> S1 + P3" "S1 + P3 < 2 ^ (60 + 3)"
    using s1(2) p3(2) e1 e2 e3 e4 assms(2,4,6) by simp_all
  note s2 = fl_scaled [OF r5 three(3), folded S2_def D_def]
  have e5: "\<bar>S2 - (S1 + P3)\<bar> \<le> 512" using s2(3) by simp

  have r6: "0 \<le> S2 + 1108072858077640576" "S2 + 1108072858077640576 < 2 ^ (60 + 3)"
    using s2(2) e1 e2 e3 e4 e5 assms(2,4,6) by simp_all
  note t = fl_scaled [OF r6 three(3), folded T_def D_def]
  have e6: "\<bar>T - (S2 + 1108072858077640576)\<bar> \<le> 512" using t(3) by simp

  show "\<bar>total_scaled r g b
          - (r * 7955158381787244 + g * 8185742682708614 + b * 7263405479023136
             + 1108072858077640576)\<bar> \<le> 1664"
    unfolding T using e1 e2 e3 e4 e5 e6 by linarith

  have fr: "float_of_int r = Inr (of_int r)" using assms(1,2) by (intro float_of_int_small) simp_all
  have fg: "float_of_int g = Inr (of_int g)" using assms(3,4) by (intro float_of_int_small) simp_all
  have fb: "float_of_int b = Inr (of_int b)" using assms(5,6) by (intro float_of_int_small) simp_all
  have l69: "fl (69 / 10000) = of_int 7955158381787244 / D" unfolding D_def by (rule lit69)
  have l71: "fl (71 / 10000) = of_int 8185742682708614 / D" unfolding D_def by (rule lit71)
  have l63: "fl (63 / 10000) = of_int 7263405479023136 / D" unfolding D_def by (rule lit63)
  have l9611: "fl (9611 / 10000) = of_int 1108072858077640576 / D" unfolding D_def by (rule lit9611)
  have m: "\<And>i k. of_int i * (of_int k / D) = of_int (i * k) / D" by simp
  have a: "\<And>i k. of_int i / D + of_int k / D = of_int (i + k) / D"
    by (simp add: add_divide_distrib)
  have "totalCurrent r g b = Inr (of_int T / D)"
    unfolding totalCurrent_def fr fg fb sum.case Let_def l69 l71 l63 l9611 m p1(1) p2(1) p3(1)
      a s1(1) s2(1) t(1) ..
  then show "totalCurrent r g b = Inr (of_int (total_scaled r g b) / 2 ^ 60)"
    unfolding T D_def .
qed

lemma checkLedCurrent_in_range:
  assumes "0 \<le> r" "r \<le> 255" "0 \<le> g" "g \<le> 255" "0 \<le> b" "b \<le> 255"
  shows "checkLedCurrent r g b lcrafterChk s =
           (Inr (if lcrafterChk \<noteq> 0 \<and> 42000 < 69 * r + 71 * g + 63 * b + 9611 then 0 else 1), s)"
proof -
  note ts = total_scaled_in_range [OF assms]
  have rng: "\<not> (r > 255 \<or> g > 255 \<or> b > 255)" using assms by simp
  have cmp: "(of_int (total_scaled r g b) / 2 ^ 60 > fl (42 / 10))
      \<longleftrightarrow> total_scaled r g b > 4842270319348757504"
  proof -
    have "(of_int (total_scaled r g b) / 2 ^ 60 > (of_int 4842270319348757504 / 2 ^ 60 :: rat))
        \<longleftrightarrow> (of_int (total_scaled r g b) > (of_int 4842270319348757504 :: rat))"
      by (simp add: divide_less_cancel)
    then show ?thesis unfolding lit42 by (simp only: of_int_less_iff)
  qed
  have verdict: "total_scaled r g b > 4842270319348757504
      \<longleftrightarrow> 42000 < 69 * r + 71 * g + 63 * b + 9611"
  proof (cases "69 * r + 71 * g + 63 * b + 9611 = 42000")
    case True
    then have "69 * r + 71 * g + 63 * b = 32389" by simp
    from boundary_total [OF assms this] True show ?thesis by simp
  next
    case False
    then consider "69 * r + 71 * g + 63 * b + 9611 \<ge> 42001" | "69 * r + 71 * g + 63 * b + 9611 \<le> 41999"
      by linarith
    then show ?thesis
    proof cases
      case 1
      then have "total_scaled r g b > 4842270319348757504"
        using ts(2) assms by linarith
      with 1 show ?thesis by simp
    next
      case 2
      then have "total_scaled r g b < 4842270319348757504"
        using ts(2) assms by linarith
      with 2 show ?thesis by simp
    qed
  qed
  show ?thesis
    unfolding checkLedCurrent_def if_not_P [OF rng] ts(1) sum.case cmp verdict
    by simp
qed

lemma estimated_current_threshold:
  fixes r g b :: int
  shows "((42 / 10 :: rat) < 69 / 10000 * rat_of_int r + 71 / 10000 * rat_of_int g
                                  + 63 / 10000 * rat_of_int b + 9611 / 10000)
    \<longleftrightarrow> 42000 < 69 * r + 71 * g + 63 * b + 9611"
proof -
  let ?t = "69 / 10000 * rat_of_int r + 71 / 10000 * rat_of_int g
              + 63 / 10000 * rat_of_int b + 9611 / 10000"
  have 1: "rat_of_int (69 * r + 71 * g + 63 * b + 9611) = 10000 * ?t" by simp
  have 2: "rat_of_int 42000 = 10000 * (42 / 10)" by simp
  have "(10000 * (42 / 10) < 10000 * ?t) \<longleftrightarrow> (42 / 10 < ?t)"
    by (rule mult_less_cancel_left_pos) simp
  then have "(42 / 10 < ?t) \<longleftrightarrow> (rat_of_int 42000 < rat_of_int (69 * r + 71 * g + 63 * b + 9611))"
    unfolding 1 2 by (rule sym)
  then show ?thesis by (simp only: of_int_less_iff)
qed

text \<open>
  Claim C8. For requested currents that are bytes, \<^verbatim>\<open>checkLedCurrent\<close> with the
  strict flag set returns 0 exactly when \<open>0.0069 r + 0.0071 g + 0.0063 b + 0.9611\<close>,
  taken exactly, exceeds 4.2, and returns 1 otherwise and whenever the flag is clear:
  the rounding of the double-precision computation never changes the verdict. The
  session is returned as it was, so nothing is written or read. In particular
  (255, 255, 255) is rejected and (0, 0, 0) is accepted in strict mode. (A value above
  255 is rejected by the range check before any total is computed.)
\<close>

theorem checkLedCurrent_threshold:
  assumes "0 \<le> r" "r \<le> 255" "0 \<le> g" "g \<le> 255" "0 \<le> b" "b \<le> 255"
  shows "checkLedCurrent r g b lcrafterChk s =
           (Inr (if lcrafterChk \<noteq> 0
                    \<and> 42 / 10 < 69 / 10000 * rat_of_int r + 71 / 10000 * rat_of_int g
                                  + 63 / 10000 * rat_of_int b + 9611 / 10000
                 then 0 else 1), s)"
  by (simp only: checkLedCurrent_in_range [OF assms] estimated_current_threshold)

theorem checkLedCurrent_threshold_witness:
  "checkLedCurrent 255 255 255 1 (init 0 1 fakehid) = (Inr 0, init 0 1 fakehid)
   \<and> checkLedCurrent 0 0 0 1 (init 0 1 fakehid) = (Inr 1, init 0 1 fakehid)
   \<and> checkLedCurrent 255 255 255 0 (init 0 1 fakehid) = (Inr 1, init 0 1 fakehid)"
  using checkLedCurrent_threshold [of 255 255 255 1 "init 0 1 fakehid"]
    checkLedCurrent_threshold [of 0 0 0 1 "init 0 1 fakehid"]
    checkLedCurrent_threshold [of 255 255 255 0 "init 0 1 fakehid"]
  by simp

lemma setLEDCurrent_in_range:
  assumes "0 \<le> r" "r \<le> 255" "0 \<le> g" "g \<le> 255" "0 \<le> b" "b \<le> 255"
  shows "setLEDCurrent r g b s =
           (Inr 1,
            if 42000 < 69 * r + 71 * g + 63 * b + 9611 then s
            else s\<lparr>written := written s @ [[0, 0, 0, 5, 0, 0x01, 0x0B, 255 - r, 255 - g, 255 - b]]\<rparr>)"
  by (simp add: setLEDCurrent_def checkLedCurrent_in_range [OF assms] buildPacket_noseq
      hid_write_def)

text \<open>
  Claim C2. The claim has \<^verbatim>\<open>setLEDCurrent\<close> raise a ConfigurationError when
  the guard rejects the triple. The guard rejects (255, 255, 255), and
  \<^verbatim>\<open>setLEDCurrent\<close> then writes nothing, as claimed, but returns 1, the value it
  returns after a successful write: no error is raised or returned.
\<close>

theorem setLEDCurrent_rejection_returns_1:
  "fst (checkLedCurrent 255 255 255 1 s) = Inr 0 \<and> setLEDCurrent 255 255 255 s = (Inr 1, s)"
  using checkLedCurrent_in_range [of 255 255 255 1 s] setLEDCurrent_in_range [of 255 255 255 s]
  by simp

end
